theory Spec2Isabelle
  imports Complex_Main
begin

section \<open>The rearview backtesting engine (main.go)\<close>

text \<open>
  The engine replays a fixed-withdrawal strategy over a historical price series:
  \<open>findClosestDay\<close> locates a date, \<open>checkInPeriod\<close> simulates one starting date and
  \<open>checkStrategy\<close> tallies the simulations of every starting date.

  Conventions of the embedding.
  \<^item> \<open>float64\<close> is the reals: the definitions compute what the source computes as
    long as no float operation rounds, overflows or yields an infinity or NaN (a
    division by a price of zero, \<open>math.Pow(0, n)\<close> for a negative \<open>n\<close>, the rate
    \<open>0 / 0\<close> of a tally without success and failure: HOL's \<open>x / 0\<close> is \<open>0\<close>). The
    general theorems are about the structure of the computation (the runs, the
    indices, the formula, the tallies); in the scenarios no rounding changes a
    result.
  \<^item> The shares are \<open>int64\<close> values: the conversion \<open>int64(x)\<close> of a float truncates
    toward zero and, for a value outside the range of \<open>int64\<close>, yields \<open>- 2 ^ 63\<close>, as
    the amd64 compiler's conversion does (the language leaves that result to the
    implementation); the subtraction wraps around. The configuration's \<open>int\<close> fields
    and the loop counter are integers, taken not to overflow.
  \<^item> A \<open>time.Time\<close> of this program is always midnight UTC of a calendar day
    (\<open>time.Date(y, m, d, 0, 0, 0, 0, time.UTC)\<close>, then \<open>AddDate\<close> of whole years); it is
    the number of that day, counted from 1970-01-01.
  \<^item> A run-time panic is a value of type \<open>panic\<close>; a function that can panic returns
    \<open>panic + 'a\<close>.
  \<^item> \<open>logger.Tracef\<close> prints the state of the simulation run by run; the model
    returns those values (\<open>runTrace\<close>) next to the result.
\<close>

subsection \<open>Types\<close>

type_synonym time = int

record datePrice =
  Date :: time
  HighPrice :: real

record config =
  capital :: int
  run :: int
  yearPerRun :: int
  inflationRate :: real
  costPerYear :: int

datatype checkResult = success | failed | na

datatype panic = NoInputData | IndexOutOfRange

subsection \<open>The Go library functions the engine calls\<close>

text \<open>
  \<open>time.Date\<close> and \<open>Time.AddDate\<close> on the proleptic Gregorian calendar. A month outside
  1..12 carries into the year and a day outside the month carries into the next
  months, as the \<open>time\<close> package normalises them (29 February plus one year is 1 March).
\<close>

definition days_from_civil :: "int \<Rightarrow> int \<Rightarrow> int \<Rightarrow> int" where
  "days_from_civil y m d =
     (let y' = (if m \<le> 2 then y - 1 else y);
          era = y' div 400;
          yoe = y' - era * 400;
          mp = (if 2 < m then m - 3 else m + 9);
          doy = (153 * mp + 2) div 5 + d - 1;
          doe = yoe * 365 + yoe div 4 - yoe div 100 + doy
      in era * 146097 + doe - 719468)"

definition civil_from_days :: "int \<Rightarrow> int \<times> int \<times> int" where
  "civil_from_days z =
     (let z' = z + 719468;
          era = z' div 146097;
          doe = z' - era * 146097;
          yoe = (doe - doe div 1460 + doe div 36524 - doe div 146096) div 365;
          doy = doe - (365 * yoe + yoe div 4 - yoe div 100);
          mp = (5 * doy + 2) div 153;
          d = doy - (153 * mp + 2) div 5 + 1;
          m = (if mp < 10 then mp + 3 else mp - 9);
          y = yoe + era * 400
      in (if m \<le> 2 then y + 1 else y, m, d))"

definition time_Date :: "int \<Rightarrow> int \<Rightarrow> int \<Rightarrow> time" where
  "time_Date year month day =
     (let m0 = month - 1
      in days_from_civil (year + m0 div 12) (m0 mod 12 + 1) day)"

definition AddDate :: "time \<Rightarrow> int \<Rightarrow> int \<Rightarrow> int \<Rightarrow> time" where
  "AddDate t years months days =
     (case civil_from_days t of
        (y, m, d) \<Rightarrow> time_Date (y + years) (m + months) (d + days))"

text \<open>
  \<open>sort.Search(n, f)\<close>: the binary search of package \<open>sort\<close>, which keeps \<open>i \<le> h < j\<close>
  and returns \<open>i\<close> once \<open>i = j\<close>.
\<close>

function search_loop :: "(nat \<Rightarrow> bool) \<Rightarrow> nat \<Rightarrow> nat \<Rightarrow> nat" where
  "search_loop f i j =
     (if i < j then
        (let h = (i + j) div 2
         in if \<not> f h then search_loop f (h + 1) j else search_loop f i h)
      else i)"
  by pat_completeness auto
termination
  by (relation "measure (\<lambda>(f, i, j). j - i)") auto

declare search_loop.simps [simp del]

definition sort_Search :: "nat \<Rightarrow> (nat \<Rightarrow> bool) \<Rightarrow> nat" where
  "sort_Search n f = search_loop f 0 n"

text \<open>
  \<open>math.Pow(x, float64(n))\<close> for an integer \<open>n\<close>, the conversion \<open>int64(x)\<close> and the
  subtraction of two \<open>int64\<close> values.
\<close>

definition math_Pow :: "real \<Rightarrow> int \<Rightarrow> real" where
  "math_Pow x n = (if 0 \<le> n then x ^ nat n else inverse (x ^ nat (- n)))"

definition int64 :: "real \<Rightarrow> int" where
  "int64 x =
     (let t = (if 0 \<le> x then \<lfloor>x\<rfloor> else \<lceil>x\<rceil>)
      in if - (2 ^ 63) \<le> t \<and> t < 2 ^ 63 then t else - (2 ^ 63))"

definition sub64 :: "int \<Rightarrow> int \<Rightarrow> int" where
  "sub64 a b = (a - b + 2 ^ 63) mod 2 ^ 64 - 2 ^ 63"

subsection \<open>findClosestDay\<close>

definition findClosestDay :: "time \<Rightarrow> datePrice list \<Rightarrow> int \<times> bool" where
  "findClosestDay day inDatePrices =
     (let index = sort_Search (length inDatePrices)
                    (\<lambda>i. let datePriceDate = Date (inDatePrices ! i)
                         in day < datePriceDate \<or> datePriceDate = day)
      in if index = length inDatePrices then (- 1, False) else (int index, True))"

subsection \<open>checkInPeriod\<close>

text \<open>
  What one run of the loop over \<open>run\<close> computes, in the order the source computes it:
  the run's number, its period, the two indices, the target, the cost of living, the
  shares held when the run starts, the sale (index of the day and shares sold) when a
  day of the window meets the target, and the shares held when the run ends.
\<close>

record runTrace =
  runNo :: int
  startDay :: time
  endDay :: time
  startIndex :: int
  endIndex :: int
  targetCapital :: real
  costOfLiving :: real
  heldBefore :: int
  sale :: "(int \<times> int) option"
  heldAfter :: int

text \<open>
  The inner loop \<open>for currIndex := startIndex; currIndex < endIndex; currIndex++\<close>: the
  first index of the window whose value meets the target. Reading \<open>datePrices[currIndex]\<close>
  outside the slice panics.
\<close>

function scanWindow :: "datePrice list \<Rightarrow> int \<Rightarrow> real \<Rightarrow> int \<Rightarrow> int \<Rightarrow> panic + int option" where
  "scanWindow datePrices heldShares target currIndex endIdx =
     (if currIndex < endIdx then
        (if currIndex < 0 \<or> int (length datePrices) \<le> currIndex then Inl IndexOutOfRange
         else if target \<le> real_of_int heldShares * HighPrice (datePrices ! nat currIndex)
         then Inr (Some currIndex)
         else scanWindow datePrices heldShares target (currIndex + 1) endIdx)
      else Inr None)"
  by pat_completeness auto
termination
  by (relation "measure (\<lambda>(dps, h, t, c, e). nat (e - c))") auto

declare scanWindow.simps [simp del]

text \<open>
  The body of the loop over \<open>run\<close>. \<open>Inr None\<close>: a date was not found (the source returns
  \<open>na\<close>). \<open>Inr (Some t)\<close> with \<open>sale t = None\<close>: no day of the window met the target
  (the source returns \<open>failed\<close>). Otherwise the run is satisfied and the loop goes on
  with \<open>heldAfter t\<close> shares and \<open>endDay t\<close>.
\<close>

definition runBody :: "config \<Rightarrow> datePrice list \<Rightarrow> int \<Rightarrow> int \<Rightarrow> time \<Rightarrow> panic + runTrace option" where
  "runBody cfg datePrices r heldShares endDay0 =
     (let startDay' = endDay0;
          endDay' = AddDate endDay0 (yearPerRun cfg) 0 0;
          (startIndex', sFound) = findClosestDay startDay' datePrices;
          (endIndex', eFound) = findClosestDay endDay' datePrices
      in if \<not> sFound \<or> \<not> eFound then Inr None
         else
           let inflationRate' = math_Pow (inflationRate cfg) ((r + 1) * yearPerRun cfg);
               inflationCapital = real_of_int (capital cfg) * inflationRate';
               costOfLiving' = real_of_int (costPerYear cfg) * real_of_int (yearPerRun cfg) * inflationRate';
               targetCapital' = inflationCapital + costOfLiving';
               n = int (length datePrices)
           in if startIndex' < 0 \<or> n \<le> startIndex' \<or> endIndex' < 0 \<or> n \<le> endIndex'
              then Inl IndexOutOfRange
              else
                let t = \<lparr>runNo = r, startDay = startDay', endDay = endDay',
                         startIndex = startIndex', endIndex = endIndex',
                         targetCapital = targetCapital', costOfLiving = costOfLiving',
                         heldBefore = heldShares, sale = None, heldAfter = heldShares\<rparr>
                in case scanWindow datePrices heldShares targetCapital' startIndex' endIndex' of
                     Inl e \<Rightarrow> Inl e
                   | Inr None \<Rightarrow> Inr (Some t)
                   | Inr (Some currIndex) \<Rightarrow>
                       let soldShares = int64 (costOfLiving' / HighPrice (datePrices ! nat currIndex))
                       in Inr (Some (t\<lparr>sale := Some (currIndex, soldShares),
                                       heldAfter := sub64 heldShares soldShares\<rparr>)))"

function runLoop :: "config \<Rightarrow> datePrice list \<Rightarrow> int \<Rightarrow> int \<Rightarrow> time \<Rightarrow> panic + (checkResult \<times> runTrace list)" where
  "runLoop cfg datePrices r heldShares endDay0 =
     (if r < run cfg then
        (case runBody cfg datePrices r heldShares endDay0 of
           Inl e \<Rightarrow> Inl e
         | Inr None \<Rightarrow> Inr (na, [])
         | Inr (Some t) \<Rightarrow>
             if sale t = None then Inr (failed, [t])
             else (case runLoop cfg datePrices (r + 1) (heldAfter t) (endDay t) of
                     Inl e \<Rightarrow> Inl e
                   | Inr (res, ts) \<Rightarrow> Inr (res, t # ts)))
      else Inr (success, []))"
  by pat_completeness auto
termination
  by (relation "measure (\<lambda>(cfg, dps, r, h, e). nat (run cfg - r))") auto

declare runLoop.simps [simp del]

record simulation =
  result :: checkResult
  initialShares :: int
  runs :: "runTrace list"

definition checkInPeriod :: "config \<Rightarrow> datePrice list \<Rightarrow> panic + simulation" where
  "checkInPeriod cfg datePrices =
     (case datePrices of
        [] \<Rightarrow> Inl IndexOutOfRange
      | dp0 # _ \<Rightarrow>
          let heldShares = int64 (real_of_int (capital cfg) / HighPrice dp0)
          in case runLoop cfg datePrices 0 heldShares (Date dp0) of
               Inl e \<Rightarrow> Inl e
             | Inr (res, ts) \<Rightarrow>
                 Inr \<lparr>result = res, initialShares = heldShares, runs = ts\<rparr>)"

subsection \<open>checkStrategy and main\<close>

record tally =
  successCount :: nat
  failedCount :: nat
  naCount :: nat

fun count :: "checkResult \<Rightarrow> tally \<Rightarrow> tally" where
  "count success t = t\<lparr>successCount := successCount t + 1\<rparr>"
| "count failed t = t\<lparr>failedCount := failedCount t + 1\<rparr>"
| "count na t = t\<lparr>naCount := naCount t + 1\<rparr>"

function strategyLoop :: "config \<Rightarrow> datePrice list \<Rightarrow> nat \<Rightarrow> tally \<Rightarrow> panic + tally" where
  "strategyLoop cfg datePrices i t =
     (if i < length datePrices then
        (case checkInPeriod cfg (drop i datePrices) of
           Inl e \<Rightarrow> Inl e
         | Inr sim \<Rightarrow> strategyLoop cfg datePrices (i + 1) (count (result sim) t))
      else Inr t)"
  by pat_completeness auto
termination
  by (relation "measure (\<lambda>(cfg, dps, i, t). length dps - i)") auto

declare strategyLoop.simps [simp del]

definition checkStrategy :: "config \<Rightarrow> datePrice list \<Rightarrow> panic + tally" where
  "checkStrategy cfg datePrices =
     strategyLoop cfg datePrices 0 \<lparr>successCount = 0, failedCount = 0, naCount = 0\<rparr>"

text \<open>The rate that \<open>checkStrategy\<close> prints.\<close>

definition successfulRate :: "tally \<Rightarrow> real" where
  "successfulRate t = real (successCount t) / real (successCount t + failedCount t)"

text \<open>
  \<open>main\<close>, from the parsed series on: the flags are \<open>cfg\<close> and the rows of the CSV file
  are \<open>datePrices\<close>.
\<close>

definition main :: "config \<Rightarrow> datePrice list \<Rightarrow> panic + tally" where
  "main cfg datePrices =
     (if length datePrices = 0 then Inl NoInputData else checkStrategy cfg datePrices)"

subsection \<open>Notions used to state the properties\<close>

text \<open>
  The period boundaries of a simulation that starts on day \<open>d0\<close>: run \<open>k\<close> (counted
  from 0) starts on \<open>periodDay cfg d0 k\<close> and ends on \<open>periodDay cfg d0 (k + 1)\<close>, since
  every run executes \<open>startDay, endDay = endDay, endDay.AddDate(config.yearPerRun, 0, 0)\<close>.
\<close>

definition periodDay :: "config \<Rightarrow> time \<Rightarrow> nat \<Rightarrow> time" where
  "periodDay cfg d0 k = ((\<lambda>d. AddDate d (yearPerRun cfg) 0 0) ^^ k) d0"

text \<open>
  The result of the simulation that \<open>checkStrategy\<close> runs for starting index \<open>i\<close>, on
  the slice \<open>datePrices[i:]\<close>.
\<close>

definition resultAt :: "config \<Rightarrow> datePrice list \<Rightarrow> nat \<Rightarrow> panic + checkResult" where
  "resultAt cfg datePrices i = map_sum id result (checkInPeriod cfg (drop i datePrices))"

subsection \<open>Scenarios\<close>

text \<open>
  The scenario of the specification: three samples, one run of one year, no inflation
  and no cost of living.
\<close>

definition scenarioSeries :: "datePrice list" where
  "scenarioSeries =
     [\<lparr>Date = time_Date 2000 1 1, HighPrice = 100\<rparr>,
      \<lparr>Date = time_Date 2001 1 1, HighPrice = 200\<rparr>,
      \<lparr>Date = time_Date 2010 1 1, HighPrice = 1000\<rparr>]"

definition scenarioConfig :: config where
  "scenarioConfig =
     \<lparr>capital = 100, run = 1, yearPerRun = 1, inflationRate = 1, costPerYear = 0\<rparr>"

text \<open>A series with no sample between 2000-01-01 and 2005-01-01, tested over two runs.\<close>

definition gapSeries :: "datePrice list" where
  "gapSeries =
     [\<lparr>Date = time_Date 2000 1 1, HighPrice = 1\<rparr>,
      \<lparr>Date = time_Date 2005 1 1, HighPrice = 1000\<rparr>]"

definition gapConfig :: config where
  "gapConfig =
     \<lparr>capital = 100, run = 2, yearPerRun = 1, inflationRate = 1, costPerYear = 0\<rparr>"

text \<open>
  A series on which selling early is costly: the price is 3 on 2000-02-01 and 1024 on
  2000-03-01. The configuration has two runs of one year, prices doubling every year
  and a cost of living of 64 a year.
\<close>

definition greedySeries :: "datePrice list" where
  "greedySeries =
     [\<lparr>Date = time_Date 2000 1 1, HighPrice = 1\<rparr>,
      \<lparr>Date = time_Date 2000 2 1, HighPrice = 3\<rparr>,
      \<lparr>Date = time_Date 2000 3 1, HighPrice = 1024\<rparr>,
      \<lparr>Date = time_Date 2001 1 1, HighPrice = 8\<rparr>,
      \<lparr>Date = time_Date 2002 1 1, HighPrice = 8\<rparr>]"

definition greedyConfig :: config where
  "greedyConfig =
     \<lparr>capital = 128, run = 2, yearPerRun = 1, inflationRate = 2, costPerYear = 64\<rparr>"

text \<open>
  A capital of \<open>2 ^ 62\<close> and a single sample at the price 0.5: the capital, the price and
  their quotient \<open>2 ^ 63\<close> are values that \<open>float64\<close> holds exactly, and the quotient is
  one more than the largest \<open>int64\<close>.
\<close>

definition overflowSeries :: "datePrice list" where
  "overflowSeries = [\<lparr>Date = time_Date 2000 1 1, HighPrice = 1 / 2\<rparr>]"

definition overflowConfig :: config where
  "overflowConfig =
     \<lparr>capital = 4611686018427387904, run = 1, yearPerRun = 1, inflationRate = 2,
      costPerYear = 0\<rparr>"

section \<open>Properties\<close>

subsection \<open>The binary search\<close>

lemma search_loop_bounds:
  "i \<le> j \<Longrightarrow> i \<le> search_loop f i j \<and> search_loop f i j \<le> j"
proof (induction f i j rule: search_loop.induct)
  case (1 f i j)
  show ?case
  proof (cases "i < j")
    case False
    then have "search_loop f i j = i" by (simp add: search_loop.simps [of f i j])
    with "1.prems" show ?thesis by simp
  next
    case True
    define h where "h = (i + j) div 2"
    have hb: "i \<le> h" "h < j" using True by (simp_all add: h_def)
    show ?thesis
    proof (cases "f h")
      case True
      have "i \<le> search_loop f i h \<and> search_loop f i h \<le> h"
        using "1.IH"(2) [of h] \<open>i < j\<close> True hb by (simp add: h_def)
      then show ?thesis
        using \<open>i < j\<close> True hb by (simp add: search_loop.simps [of f i j] h_def [symmetric])
    next
      case False
      have "h + 1 \<le> search_loop f (h + 1) j \<and> search_loop f (h + 1) j \<le> j"
        using "1.IH"(1) [of h] \<open>i < j\<close> False hb by (simp add: h_def)
      then show ?thesis
        using \<open>i < j\<close> False hb by (simp add: search_loop.simps [of f i j] h_def [symmetric])
    qed
  qed
qed

lemma search_loop_last:
  "i < j \<Longrightarrow> search_loop f i j = j \<Longrightarrow> \<not> f (j - 1)"
proof (induction f i j rule: search_loop.induct)
  case (1 f i j)
  define h where "h = (i + j) div 2"
  have hb: "i \<le> h" "h < j" using "1.prems"(1) by (simp_all add: h_def)
  show ?case
  proof (cases "f h")
    case True
    have "search_loop f i j = search_loop f i h"
      using "1.prems"(1) True by (simp add: search_loop.simps [of f i j] h_def [symmetric])
    moreover have "search_loop f i h \<le> h" using search_loop_bounds [of i h f] hb by simp
    ultimately show ?thesis using "1.prems"(2) hb by simp
  next
    case False
    have eq: "search_loop f i j = search_loop f (h + 1) j"
      using "1.prems"(1) False by (simp add: search_loop.simps [of f i j] h_def [symmetric])
    show ?thesis
    proof (cases "h + 1 < j")
      case True
      then show ?thesis
        using "1.IH"(1) [of h] "1.prems" False eq by (simp add: h_def)
    next
      case False
      then have "h = j - 1" using hb by simp
      then show ?thesis using \<open>\<not> f h\<close> by simp
    qed
  qed
qed

text \<open>
  The search reads \<open>f\<close> between \<open>i\<close> and \<open>j\<close> only: the closure of \<open>findClosestDay\<close>
  never indexes the slice outside its bounds.
\<close>

lemma search_loop_cong:
  "(\<And>k. i \<le> k \<Longrightarrow> k < j \<Longrightarrow> f k = g k) \<Longrightarrow> search_loop f i j = search_loop g i j"
proof (induction f i j rule: search_loop.induct)
  case (1 f i j)
  show ?case
  proof (cases "i < j")
    case False
    then show ?thesis by (simp add: search_loop.simps [of f i j] search_loop.simps [of g i j])
  next
    case True
    define h where "h = (i + j) div 2"
    have hb: "i \<le> h" "h < j" using True by (simp_all add: h_def)
    have fg: "f h = g h" using "1.prems" hb by simp
    show ?thesis
    proof (cases "f h")
      case fh: True
      have nn: "\<not> \<not> f h" using fh by simp
      have "search_loop f i h = search_loop g i h"
        using "1.prems" hb by (intro "1.IH"(2) [OF True h_def nn]) simp_all
      with True fh fg show ?thesis
        by (simp add: search_loop.simps [of f i j] search_loop.simps [of g i j] h_def [symmetric])
    next
      case nfh: False
      have "search_loop f (h + 1) j = search_loop g (h + 1) j"
        using "1.prems" hb by (intro "1.IH"(1) [OF True h_def nfh]) simp_all
      with True nfh fg show ?thesis
        by (simp add: search_loop.simps [of f i j] search_loop.simps [of g i j] h_def [symmetric])
    qed
  qed
qed

lemma search_loop_sorted:
  "i \<le> j \<Longrightarrow> (\<forall>a b. i \<le> a \<and> a \<le> b \<and> b < j \<and> f a \<longrightarrow> f b) \<Longrightarrow>
   (\<forall>k. i \<le> k \<and> k < search_loop f i j \<longrightarrow> \<not> f k) \<and>
   (\<forall>k. search_loop f i j \<le> k \<and> k < j \<longrightarrow> f k)"
proof (induction f i j rule: search_loop.induct)
  case (1 f i j)
  note mono0 = "1.prems"(2) [rule_format]
  show ?case
  proof (cases "i < j")
    case False
    have r: "search_loop f i j = i" using False by (simp add: search_loop.simps [of f i j])
    show ?thesis unfolding r
    proof (intro conjI allI impI)
      fix k assume "i \<le> k \<and> k < i"
      then show "\<not> f k" by auto
    next
      fix k assume "i \<le> k \<and> k < j"
      then show "f k" using False by auto
    qed
  next
    case True
    define h where "h = (i + j) div 2"
    have hb: "i \<le> h" "h < j" using True by (simp_all add: h_def)
    show ?thesis
    proof (cases "f h")
      case fh: True
      have eq: "search_loop f i j = search_loop f i h"
        using True fh by (simp add: search_loop.simps [of f i j] h_def [symmetric])
      have mono: "\<forall>a b. i \<le> a \<and> a \<le> b \<and> b < h \<and> f a \<longrightarrow> f b"
      proof (intro allI impI)
        fix a b assume a: "i \<le> a \<and> a \<le> b \<and> b < h \<and> f a"
        then have "b < j" using hb by simp
        with a show "f b" using mono0 [of a b] by simp
      qed
      have nn: "\<not> \<not> f h" using fh by simp
      note ih = "1.IH"(2) [OF True h_def nn hb(1) mono]
      have up: "f k" if "h \<le> k" "k < j" for k
        using mono0 [of h k] that fh hb by simp
      show ?thesis unfolding eq
      proof (intro conjI allI impI)
        fix k assume "i \<le> k \<and> k < search_loop f i h"
        then show "\<not> f k" by (rule ih [THEN conjunct1, rule_format])
      next
        fix k assume k: "search_loop f i h \<le> k \<and> k < j"
        show "f k"
        proof (cases "k < h")
          case True
          with k have "search_loop f i h \<le> k \<and> k < h" by simp
          then show ?thesis by (rule ih [THEN conjunct2, rule_format])
        next
          case False
          then show ?thesis using up [of k] k by simp
        qed
      qed
    next
      case nfh: False
      have eq: "search_loop f i j = search_loop f (h + 1) j"
        using True nfh by (simp add: search_loop.simps [of f i j] h_def [symmetric])
      have mono: "\<forall>a b. h + 1 \<le> a \<and> a \<le> b \<and> b < j \<and> f a \<longrightarrow> f b"
      proof (intro allI impI)
        fix a b assume a: "h + 1 \<le> a \<and> a \<le> b \<and> b < j \<and> f a"
        then have "i \<le> a" using hb by simp
        with a show "f b" using mono0 [of a b] by simp
      qed
      have hj: "h + 1 \<le> j" using hb by simp
      note ih = "1.IH"(1) [OF True h_def nfh hj mono]
      have low: "\<not> f k" if "i \<le> k" "k \<le> h" for k
        using mono0 [of k h] that nfh hb by auto
      show ?thesis unfolding eq
      proof (intro conjI allI impI)
        fix k assume k: "i \<le> k \<and> k < search_loop f (h + 1) j"
        show "\<not> f k"
        proof (cases "k \<le> h")
          case True
          then show ?thesis using low [of k] k by simp
        next
          case False
          with k have "h + 1 \<le> k \<and> k < search_loop f (h + 1) j" by simp
          then show ?thesis by (rule ih [THEN conjunct1, rule_format])
        qed
      next
        fix k assume "search_loop f (h + 1) j \<le> k \<and> k < j"
        then show "f k" by (rule ih [THEN conjunct2, rule_format])
      qed
    qed
  qed
qed

subsection \<open>findClosestDay\<close>

lemma findClosestDay_eq:
  "findClosestDay day dps =
     (if search_loop (\<lambda>i. day \<le> Date (dps ! i)) 0 (length dps) = length dps
      then (- 1, False)
      else (int (search_loop (\<lambda>i. day \<le> Date (dps ! i)) 0 (length dps)), True))"
proof -
  have "(\<lambda>i. let datePriceDate = Date (dps ! i) in day < datePriceDate \<or> datePriceDate = day)
        = (\<lambda>i. day \<le> Date (dps ! i))"
    by (auto simp: Let_def)
  then show ?thesis by (simp add: findClosestDay_def sort_Search_def Let_def)
qed

lemma findClosestDay_range:
  assumes "findClosestDay day dps = (i, True)"
  shows "0 \<le> i \<and> i < int (length dps)"
proof -
  define r where "r = search_loop (\<lambda>i. day \<le> Date (dps ! i)) 0 (length dps)"
  have rn: "r \<le> length dps"
    using search_loop_bounds [of 0 "length dps" "\<lambda>i. day \<le> Date (dps ! i)"] by (simp add: r_def)
  from assms have "r \<noteq> length dps \<and> i = int r"
    unfolding findClosestDay_eq r_def [symmetric] by (simp split: if_splits)
  with rn show ?thesis by simp
qed

lemma findClosestDay_not_found:
  assumes "findClosestDay day dps = (i, False)" and "dps \<noteq> []"
  shows "i = - 1 \<and> Date (last dps) < day"
proof -
  define r where "r = search_loop (\<lambda>i. day \<le> Date (dps ! i)) 0 (length dps)"
  from assms(1) have r: "r = length dps" and i: "i = - 1"
    unfolding findClosestDay_eq r_def [symmetric] by (simp_all split: if_splits)
  have pos: "0 < length dps" using assms(2) by simp
  have "\<not> day \<le> Date (dps ! (length dps - 1))"
    using search_loop_last [of 0 "length dps" "\<lambda>i. day \<le> Date (dps ! i)"] pos r
    by (simp add: r_def)
  then have "Date (last dps) < day" using assms(2) by (simp add: last_conv_nth)
  with i show ?thesis by simp
qed

lemma findClosestDay_least:
  fixes day :: int and dps :: "datePrice list"
  assumes "sorted (map Date dps)"
  defines "r \<equiv> search_loop (\<lambda>i. day \<le> Date (dps ! i)) 0 (length dps)"
  shows "r \<le> length dps" and "k < r \<Longrightarrow> Date (dps ! k) < day"
    and "r \<le> k \<Longrightarrow> k < length dps \<Longrightarrow> day \<le> Date (dps ! k)"
proof -
  show rn: "r \<le> length dps"
    using search_loop_bounds [of 0 "length dps" "\<lambda>i. day \<le> Date (dps ! i)"] by (simp add: r_def)
  have mono: "\<forall>a b. 0 \<le> a \<and> a \<le> b \<and> b < length dps \<and> day \<le> Date (dps ! a) \<longrightarrow> day \<le> Date (dps ! b)"
  proof (intro allI impI)
    fix a b assume h: "0 \<le> a \<and> a \<le> b \<and> b < length dps \<and> day \<le> Date (dps ! a)"
    then have "map Date dps ! a \<le> map Date dps ! b"
      using assms(1) by (simp add: sorted_iff_nth_mono)
    with h show "day \<le> Date (dps ! b)" by simp
  qed
  note s = search_loop_sorted [of 0 "length dps" "\<lambda>i. day \<le> Date (dps ! i)", OF le0 mono,
      folded r_def]
  show "Date (dps ! k) < day" if "k < r"
    using s [THEN conjunct1, rule_format, of k] that by simp
  show "day \<le> Date (dps ! k)" if "r \<le> k" "k < length dps"
    using s [THEN conjunct2, rule_format, of k] that by simp
qed

subsection \<open>The window scan and the body of a run\<close>

lemma scanWindow_empty:
  "e \<le> c \<Longrightarrow> scanWindow dps h t c e = Inr None"
  by (simp add: scanWindow.simps [of dps h t c e])

lemma scanWindow_Inr:
  "0 \<le> c \<Longrightarrow> e \<le> int (length dps) \<Longrightarrow> \<exists>x. scanWindow dps h t c e = Inr x"
proof (induction dps h t c e rule: scanWindow.induct)
  case (1 dps h t c e)
  show ?case
  proof (cases "c < e")
    case False
    then show ?thesis by (simp add: scanWindow.simps [of dps h t c e])
  next
    case True
    with "1.prems" have inr: "\<not> (c < 0 \<or> int (length dps) \<le> c)" by simp
    show ?thesis
    proof (cases "t \<le> real_of_int h * HighPrice (dps ! nat c)")
      case True
      with \<open>c < e\<close> inr show ?thesis by (simp add: scanWindow.simps [of dps h t c e])
    next
      case False
      have "\<exists>x. scanWindow dps h t (c + 1) e = Inr x"
        using "1.IH" [OF \<open>c < e\<close> inr False] "1.prems" by simp
      with \<open>c < e\<close> inr False show ?thesis by (simp add: scanWindow.simps [of dps h t c e])
    qed
  qed
qed

lemma scanWindow_Some:
  "scanWindow dps h t c e = Inr (Some i) \<Longrightarrow>
     c \<le> i \<and> i < e \<and> 0 \<le> i \<and> i < int (length dps) \<and>
     t \<le> real_of_int h * HighPrice (dps ! nat i)"
proof (induction dps h t c e rule: scanWindow.induct)
  case (1 dps h t c e)
  from "1.prems" have ce: "c < e"
    by (simp add: scanWindow.simps [of dps h t c e] split: if_splits)
  from "1.prems" ce have inr: "\<not> (c < 0 \<or> int (length dps) \<le> c)"
    by (simp add: scanWindow.simps [of dps h t c e] split: if_splits)
  show ?case
  proof (cases "t \<le> real_of_int h * HighPrice (dps ! nat c)")
    case True
    with "1.prems" ce inr have "i = c" by (simp add: scanWindow.simps [of dps h t c e])
    with True ce inr show ?thesis by simp
  next
    case False
    with "1.prems" ce inr have "scanWindow dps h t (c + 1) e = Inr (Some i)"
      by (simp add: scanWindow.simps [of dps h t c e])
    from "1.IH" [OF ce inr False this] show ?thesis by simp
  qed
qed

lemma scanWindow_None:
  "scanWindow dps h t c e = Inr None \<Longrightarrow> c \<le> k \<Longrightarrow> k < e \<Longrightarrow>
     \<not> t \<le> real_of_int h * HighPrice (dps ! nat k)"
proof (induction dps h t c e rule: scanWindow.induct)
  case (1 dps h t c e)
  from "1.prems" have ce: "c < e" by simp
  from "1.prems" ce have inr: "\<not> (c < 0 \<or> int (length dps) \<le> c)"
    by (simp add: scanWindow.simps [of dps h t c e] split: if_splits)
  from "1.prems" ce inr have nc: "\<not> t \<le> real_of_int h * HighPrice (dps ! nat c)"
    by (simp add: scanWindow.simps [of dps h t c e] split: if_splits)
  show ?case
  proof (cases "k = c")
    case True
    with nc show ?thesis by simp
  next
    case False
    with "1.prems" have k: "c + 1 \<le> k" by simp
    from "1.prems" ce inr nc have "scanWindow dps h t (c + 1) e = Inr None"
      by (simp add: scanWindow.simps [of dps h t c e])
    from "1.IH" [OF ce inr nc this k "1.prems"(3)] show ?thesis .
  qed
qed

lemma runBody_no_panic: "\<exists>x. runBody cfg dps r h e = Inr x"
proof -
  obtain si sf where s: "findClosestDay e dps = (si, sf)" by (cases "findClosestDay e dps")
  obtain ei ef where f: "findClosestDay (AddDate e (yearPerRun cfg) 0 0) dps = (ei, ef)"
    by (cases "findClosestDay (AddDate e (yearPerRun cfg) 0 0) dps")
  show ?thesis
  proof (cases "sf \<and> ef")
    case False
    then show ?thesis by (auto simp: runBody_def Let_def s f)
  next
    case True
    then have sf: "sf = True" and ef: "ef = True" by simp_all
    have rs: "0 \<le> si \<and> si < int (length dps)"
      using findClosestDay_range [of e dps si] s sf by simp
    have re: "0 \<le> ei \<and> ei < int (length dps)"
      using findClosestDay_range [of "AddDate e (yearPerRun cfg) 0 0" dps ei] f ef by simp
    obtain x where "scanWindow dps h
        (real_of_int (capital cfg) * math_Pow (inflationRate cfg) ((r + 1) * yearPerRun cfg) +
         real_of_int (costPerYear cfg) * real_of_int (yearPerRun cfg) *
         math_Pow (inflationRate cfg) ((r + 1) * yearPerRun cfg)) si ei = Inr x"
      using scanWindow_Inr [of si ei dps] rs re by auto
    with True rs re show ?thesis
      by (cases x) (simp_all add: runBody_def Let_def s f)
  qed
qed

lemma runBody_None:
  assumes "runBody cfg dps r h e = Inr None"
  shows "\<not> snd (findClosestDay e dps) \<or> \<not> snd (findClosestDay (AddDate e (yearPerRun cfg) 0 0) dps)"
  using assms
  by (auto simp: runBody_def Let_def split: prod.splits if_splits sum.splits option.splits)

lemma runBody_Some:
  assumes "runBody cfg dps r h e = Inr (Some t)"
  shows "runNo t = r" and "startDay t = e" and "endDay t = AddDate e (yearPerRun cfg) 0 0"
    and "findClosestDay e dps = (startIndex t, True)"
    and "findClosestDay (AddDate e (yearPerRun cfg) 0 0) dps = (endIndex t, True)"
    and "costOfLiving t = real_of_int (costPerYear cfg) * real_of_int (yearPerRun cfg) *
           math_Pow (inflationRate cfg) ((r + 1) * yearPerRun cfg)"
    and "targetCapital t = real_of_int (capital cfg) *
           math_Pow (inflationRate cfg) ((r + 1) * yearPerRun cfg) + costOfLiving t"
    and "heldBefore t = h"
    and "scanWindow dps h (targetCapital t) (startIndex t) (endIndex t) = Inr (map_option fst (sale t))"
    and "sale t = None \<Longrightarrow> heldAfter t = h"
    and "sale t = Some (i, s) \<Longrightarrow>
           s = int64 (costOfLiving t / HighPrice (dps ! nat i)) \<and> heldAfter t = sub64 h s"
  using assms
  by (auto simp: runBody_def Let_def split: prod.splits if_splits sum.splits option.splits)

subsection \<open>The loop over the runs\<close>

lemma runLoop_done:
  "\<not> r < run cfg \<Longrightarrow> runLoop cfg dps r h e = Inr (success, [])"
  by (simp add: runLoop.simps [of cfg dps r h e])

lemma runLoop_Nil:
  assumes "runLoop cfg dps r h e = Inr (res, [])"
  shows "(res = success \<and> run cfg \<le> r) \<or>
         (res = na \<and> r < run cfg \<and> runBody cfg dps r h e = Inr None)"
  using assms
  by (auto simp: runLoop.simps [of cfg dps r h e]
      split: if_splits sum.splits option.splits prod.splits)

lemma runLoop_Cons:
  assumes "runLoop cfg dps r h e = Inr (res, t # ts)"
  shows "r < run cfg" and "runBody cfg dps r h e = Inr (Some t)"
    and "sale t = None \<Longrightarrow> res = failed \<and> ts = []"
    and "sale t \<noteq> None \<Longrightarrow> runLoop cfg dps (r + 1) (heldAfter t) (endDay t) = Inr (res, ts)"
  using assms
  by (auto simp: runLoop.simps [of cfg dps r h e]
      split: if_splits sum.splits option.splits prod.splits)

lemma runLoop_no_panic: "\<exists>res ts. runLoop cfg dps r h e = Inr (res, ts)"
proof (induction cfg dps r h e rule: runLoop.induct)
  case (1 cfg dps r h e)
  show ?case
  proof (cases "r < run cfg")
    case False
    then show ?thesis by (simp add: runLoop_done)
  next
    case True
    obtain x where x: "runBody cfg dps r h e = Inr x" using runBody_no_panic by blast
    show ?thesis
    proof (cases x)
      case None
      with True x show ?thesis by (simp add: runLoop.simps [of cfg dps r h e])
    next
      case (Some t)
      show ?thesis
      proof (cases "sale t = None")
        case True
        with \<open>r < run cfg\<close> x Some show ?thesis by (simp add: runLoop.simps [of cfg dps r h e])
      next
        case False
        from "1.IH" [OF \<open>r < run cfg\<close> x Some False]
        obtain res ts where "runLoop cfg dps (r + 1) (heldAfter t) (endDay t) = Inr (res, ts)"
          by blast
        with \<open>r < run cfg\<close> x Some False show ?thesis
          by (simp add: runLoop.simps [of cfg dps r h e])
      qed
    qed
  qed
qed

lemma periodDay_0: "periodDay cfg d 0 = d"
  by (simp add: periodDay_def)

lemma periodDay_Suc: "periodDay cfg d (Suc k) = periodDay cfg (AddDate d (yearPerRun cfg) 0 0) k"
  by (simp only: periodDay_def funpow_Suc_right o_apply)

lemma runLoop_nth:
  "runLoop cfg dps r h e = Inr (res, ts) \<Longrightarrow> k < length ts \<Longrightarrow>
     r + int k < run cfg \<and>
     runBody cfg dps (r + int k) (heldBefore (ts ! k)) (periodDay cfg e k) = Inr (Some (ts ! k)) \<and>
     heldBefore (ts ! k) = (if k = 0 then h else heldAfter (ts ! (k - 1))) \<and>
     (Suc k < length ts \<longrightarrow> sale (ts ! k) \<noteq> None)"
proof (induction ts arbitrary: r h e k)
  case Nil
  then show ?case by simp
next
  case (Cons t ts)
  note c = runLoop_Cons [OF Cons.prems(1)]
  show ?case
  proof (cases k)
    case 0
    have "Suc 0 < length (t # ts) \<longrightarrow> sale t \<noteq> None"
      using c(3) by (cases "sale t = None") simp_all
    with 0 c(1,2) runBody_Some(8) [OF c(2)] show ?thesis by (simp add: periodDay_0)
  next
    case (Suc k')
    then have k': "k' < length ts" using Cons.prems(2) by simp
    then have "ts \<noteq> []" by auto
    with c(3) have ns: "sale t \<noteq> None" by blast
    note ih = Cons.IH [OF c(4) [OF ns] k']
    have e: "endDay t = AddDate e (yearPerRun cfg) 0 0" using runBody_Some(3) [OF c(2)] .
    have n: "(t # ts) ! k = ts ! k'" by (simp add: Suc)
    have p: "heldAfter ((t # ts) ! (k - 1)) = (if k' = 0 then heldAfter t else heldAfter (ts ! (k' - 1)))"
      by (cases k') (simp_all add: Suc)
    have rk: "r + int k = r + 1 + int k'" by (simp add: Suc)
    have pd: "periodDay cfg e k = periodDay cfg (endDay t) k'" by (simp add: Suc periodDay_Suc e)
    have k0: "k \<noteq> 0" by (simp add: Suc)
    have sk: "Suc k < length (t # ts) \<longleftrightarrow> Suc k' < length ts" by (simp add: Suc)
    show ?thesis unfolding n rk pd sk if_not_P [OF k0] p using ih by blast
  qed
qed

lemma runLoop_sale_None:
  "runLoop cfg dps r h e = Inr (res, ts) \<Longrightarrow> t \<in> set ts \<Longrightarrow> sale t = None \<Longrightarrow>
     res = failed \<and> t = last ts"
proof (induction ts arbitrary: r h e)
  case Nil
  then show ?case by simp
next
  case (Cons a ts)
  note c = runLoop_Cons [OF Cons.prems(1)]
  show ?case
  proof (cases "sale a = None")
    case True
    with c(3) Cons.prems(2) show ?thesis by simp
  next
    case False
    with Cons.prems(2,3) have "t \<in> set ts" by auto
    from Cons.IH [OF c(4) [OF False] this Cons.prems(3)] this show ?thesis by auto
  qed
qed

lemma runLoop_success:
  "runLoop cfg dps r h e = Inr (success, ts) \<Longrightarrow>
     r + int (length ts) = max r (run cfg) \<and> (\<forall>t \<in> set ts. sale t \<noteq> None)"
proof (induction ts arbitrary: r h e)
  case Nil
  from runLoop_Nil [OF Nil] show ?case by auto
next
  case (Cons t ts)
  note c = runLoop_Cons [OF Cons.prems]
  from c(3) have ns: "sale t \<noteq> None" by (cases "sale t = None") simp_all
  from Cons.IH [OF c(4) [OF ns]] ns c(1) show ?case by auto
qed

lemma runLoop_failed:
  "runLoop cfg dps r h e = Inr (failed, ts) \<Longrightarrow> ts \<noteq> [] \<and> sale (last ts) = None"
proof (induction ts arbitrary: r h e)
  case Nil
  from runLoop_Nil [OF Nil] show ?case by auto
next
  case (Cons t ts)
  note c = runLoop_Cons [OF Cons.prems]
  show ?case
  proof (cases "sale t = None")
    case True
    with c(3) show ?thesis by simp
  next
    case False
    from Cons.IH [OF c(4) [OF False]] show ?thesis by simp
  qed
qed

lemma runLoop_na:
  "runLoop cfg dps r h e = Inr (na, ts) \<Longrightarrow>
     r + int (length ts) < run cfg \<and>
     (\<not> snd (findClosestDay (periodDay cfg e (length ts)) dps) \<or>
      \<not> snd (findClosestDay (periodDay cfg e (Suc (length ts))) dps))"
proof (induction ts arbitrary: r h e)
  case Nil
  from runLoop_Nil [OF Nil] have b: "r < run cfg" "runBody cfg dps r h e = Inr None" by auto
  from runBody_None [OF b(2)] b(1) show ?case by (simp add: periodDay_0 periodDay_Suc)
next
  case (Cons t ts)
  note c = runLoop_Cons [OF Cons.prems]
  have e: "endDay t = AddDate e (yearPerRun cfg) 0 0" using runBody_Some(3) [OF c(2)] .
  from c(3) have ns: "sale t \<noteq> None" by (cases "sale t = None") simp_all
  from Cons.IH [OF c(4) [OF ns]] show ?case by (simp add: periodDay_Suc [of cfg e] e)
qed

subsection \<open>checkInPeriod\<close>

lemma checkInPeriod_Nil: "checkInPeriod cfg [] = Inl IndexOutOfRange"
  by (simp add: checkInPeriod_def)

lemma checkInPeriod_Inr:
  assumes "checkInPeriod cfg dps = Inr sim"
  shows "dps \<noteq> []"
    and "initialShares sim = int64 (real_of_int (capital cfg) / HighPrice (hd dps))"
    and "runLoop cfg dps 0 (initialShares sim) (Date (hd dps)) = Inr (result sim, runs sim)"
  using assms
  by (auto simp: checkInPeriod_def Let_def split: list.splits sum.splits prod.splits)

lemma checkInPeriod_no_panic:
  assumes "dps \<noteq> []"
  shows "\<exists>sim. checkInPeriod cfg dps = Inr sim"
proof -
  obtain dp0 rest where d: "dps = dp0 # rest" using assms by (cases dps) auto
  obtain res ts where
    "runLoop cfg dps 0 (int64 (real_of_int (capital cfg) / HighPrice dp0)) (Date dp0) = Inr (res, ts)"
    using runLoop_no_panic by blast
  then show ?thesis by (simp add: checkInPeriod_def Let_def d)
qed

lemma math_Pow_nat:
  "0 \<le> n \<Longrightarrow> math_Pow x n = x ^ nat n"
  by (simp add: math_Pow_def)

lemma checkInPeriod_run:
  assumes "checkInPeriod cfg dps = Inr sim" and "k < length (runs sim)"
  shows "int k < run cfg"
    and "runBody cfg dps (int k) (heldBefore (runs sim ! k)) (periodDay cfg (Date (hd dps)) k) =
           Inr (Some (runs sim ! k))"
    and "heldBefore (runs sim ! k) =
           (if k = 0 then initialShares sim else heldAfter (runs sim ! (k - 1)))"
    and "Suc k < length (runs sim) \<Longrightarrow> sale (runs sim ! k) \<noteq> None"
proof -
  note n = runLoop_nth [OF checkInPeriod_Inr(3) [OF assms(1)] assms(2), unfolded add_0]
  show "int k < run cfg" using n by (rule conjunct1)
  show "runBody cfg dps (int k) (heldBefore (runs sim ! k)) (periodDay cfg (Date (hd dps)) k) =
           Inr (Some (runs sim ! k))"
    using n [THEN conjunct2] by (rule conjunct1)
  show "heldBefore (runs sim ! k) =
           (if k = 0 then initialShares sim else heldAfter (runs sim ! (k - 1)))"
    using n [THEN conjunct2, THEN conjunct2] by (rule conjunct1)
  show "sale (runs sim ! k) \<noteq> None" if "Suc k < length (runs sim)"
    using n [THEN conjunct2, THEN conjunct2, THEN conjunct2] that by blast
qed

subsection \<open>checkStrategy\<close>

lemma resultAt_Inr:
  assumes "i < length dps"
  shows "\<exists>sim. checkInPeriod cfg (drop i dps) = Inr sim \<and> resultAt cfg dps i = Inr (result sim)"
proof -
  have "drop i dps \<noteq> []" using assms by simp
  from checkInPeriod_no_panic [OF this] obtain sim where "checkInPeriod cfg (drop i dps) = Inr sim"
    by blast
  then show ?thesis by (simp add: resultAt_def)
qed

lemma strategyLoop_done:
  "\<not> i < length dps \<Longrightarrow> strategyLoop cfg dps i t = Inr t"
  by (simp add: strategyLoop.simps [of cfg dps i t])

lemma strategyLoop_step:
  "i < length dps \<Longrightarrow> checkInPeriod cfg (drop i dps) = Inr sim \<Longrightarrow>
     strategyLoop cfg dps i t = strategyLoop cfg dps (i + 1) (count (result sim) t)"
  by (simp add: strategyLoop.simps [of cfg dps i t])

lemma strategyLoop_counts:
  "\<exists>t'. strategyLoop cfg dps i t = Inr t' \<and>
     successCount t' = successCount t +
       length (filter (\<lambda>k. resultAt cfg dps k = Inr success) [i..<length dps]) \<and>
     failedCount t' = failedCount t +
       length (filter (\<lambda>k. resultAt cfg dps k = Inr failed) [i..<length dps]) \<and>
     naCount t' = naCount t +
       length (filter (\<lambda>k. resultAt cfg dps k = Inr na) [i..<length dps])"
proof (induction cfg dps i t rule: strategyLoop.induct)
  case (1 cfg dps i t)
  show ?case
  proof (cases "i < length dps")
    case False
    then show ?thesis by (simp add: strategyLoop_done)
  next
    case True
    from resultAt_Inr [OF True] obtain sim where
      sim: "checkInPeriod cfg (drop i dps) = Inr sim" and r: "resultAt cfg dps i = Inr (result sim)"
      by blast
    from "1.IH" [OF True sim] obtain t' where
      t': "strategyLoop cfg dps (i + 1) (count (result sim) t) = Inr t'"
      and s: "successCount t' = successCount (count (result sim) t) +
        length (filter (\<lambda>k. resultAt cfg dps k = Inr success) [i + 1..<length dps])"
      and f: "failedCount t' = failedCount (count (result sim) t) +
        length (filter (\<lambda>k. resultAt cfg dps k = Inr failed) [i + 1..<length dps])"
      and n: "naCount t' = naCount (count (result sim) t) +
        length (filter (\<lambda>k. resultAt cfg dps k = Inr na) [i + 1..<length dps])"
      by blast
    have u: "[i..<length dps] = i # [i + 1..<length dps]" using True by (simp add: upt_conv_Cons)
    have eq: "strategyLoop cfg dps i t = Inr t'" using strategyLoop_step [OF True sim] t' by simp
    show ?thesis
    proof (cases "result sim")
      case success
      with s f n r eq show ?thesis unfolding u by simp
    next
      case failed
      with s f n r eq show ?thesis unfolding u by simp
    next
      case na
      with s f n r eq show ?thesis unfolding u by simp
    qed
  qed
qed

lemma three_way_filter:
  assumes "\<forall>x \<in> set xs. \<exists>r. g x = Inr r"
  shows "length (filter (\<lambda>k. g k = Inr success) xs) + length (filter (\<lambda>k. g k = Inr failed) xs) +
         length (filter (\<lambda>k. g k = Inr na) xs) = length xs"
  using assms
proof (induction xs)
  case Nil
  then show ?case by simp
next
  case (Cons x xs)
  then obtain r where r: "g x = Inr r" by auto
  from Cons have ih: "length (filter (\<lambda>k. g k = Inr success) xs) +
      length (filter (\<lambda>k. g k = Inr failed) xs) +
      length (filter (\<lambda>k. g k = Inr na) xs) = length xs" by simp
  show ?case using ih r by (cases r) simp_all
qed

text \<open>On an empty series \<open>checkStrategy\<close> itself returns the empty tally.\<close>

lemma checkStrategy_Nil:
  "checkStrategy cfg [] = Inr \<lparr>successCount = 0, failedCount = 0, naCount = 0\<rparr>"
  by (simp add: checkStrategy_def strategyLoop_done)

lemma resultAt_total:
  "\<forall>i \<in> set [0..<length dps]. \<exists>r. resultAt cfg dps i = Inr r"
proof
  fix i assume "i \<in> set [0..<length dps]"
  then have "i < length dps" by simp
  from resultAt_Inr [OF this, of cfg] show "\<exists>r. resultAt cfg dps i = Inr r" by blast
qed

lemma checkStrategy_counts:
  "\<exists>t. checkStrategy cfg dps = Inr t \<and>
     successCount t = length (filter (\<lambda>i. resultAt cfg dps i = Inr success) [0..<length dps]) \<and>
     failedCount t = length (filter (\<lambda>i. resultAt cfg dps i = Inr failed) [0..<length dps]) \<and>
     naCount t = length (filter (\<lambda>i. resultAt cfg dps i = Inr na) [0..<length dps])"
  using strategyLoop_counts [of cfg dps 0 "\<lparr>successCount = 0, failedCount = 0, naCount = 0\<rparr>"]
  unfolding checkStrategy_def by simp

lemma checkStrategy_sum:
  assumes "checkStrategy cfg dps = Inr t"
  shows "successCount t + failedCount t + naCount t = length dps"
proof -
  from checkStrategy_counts [of cfg dps] assms
  have s: "successCount t = length (filter (\<lambda>i. resultAt cfg dps i = Inr success) [0..<length dps])"
    and f: "failedCount t = length (filter (\<lambda>i. resultAt cfg dps i = Inr failed) [0..<length dps])"
    and n: "naCount t = length (filter (\<lambda>i. resultAt cfg dps i = Inr na) [0..<length dps])"
    by simp_all
  from three_way_filter [of "[0..<length dps]" "resultAt cfg dps", OF resultAt_total]
  show ?thesis unfolding s f n by simp
qed

subsection \<open>More runs\<close>

lemma runBody_run_update: "runBody (cfg\<lparr>run := n\<rparr>) dps r h e = runBody cfg dps r h e"
proof -
  have s: "yearPerRun (cfg\<lparr>run := n\<rparr>) = yearPerRun cfg"
    "inflationRate (cfg\<lparr>run := n\<rparr>) = inflationRate cfg"
    "capital (cfg\<lparr>run := n\<rparr>) = capital cfg"
    "costPerYear (cfg\<lparr>run := n\<rparr>) = costPerYear cfg"
    by simp_all
  show ?thesis unfolding runBody_def s ..
qed

lemma runLoop_more_runs:
  assumes "run cfg \<le> n"
  shows "runLoop cfg dps r h e = Inr (res, ts) \<Longrightarrow> res \<noteq> success \<Longrightarrow>
         runLoop (cfg\<lparr>run := n\<rparr>) dps r h e = Inr (res, ts)"
proof (induction ts arbitrary: r h e)
  case Nil
  from runLoop_Nil [OF Nil(1)] Nil(2)
  have b: "res = na" "r < run cfg" "runBody cfg dps r h e = Inr None" by auto
  then have "r < n" using assms by simp
  with b show ?case
    by (simp add: runLoop.simps [of "cfg\<lparr>run := n\<rparr>" dps r h e] runBody_run_update)
next
  case (Cons t ts)
  note c = runLoop_Cons [OF Cons.prems(1)]
  have rn: "r < n" using c(1) assms by simp
  show ?case
  proof (cases "sale t = None")
    case True
    with c(3) have "res = failed" "ts = []" by simp_all
    with rn c(2) True show ?thesis
      by (simp add: runLoop.simps [of "cfg\<lparr>run := n\<rparr>" dps r h e] runBody_run_update)
  next
    case False
    then obtain a b where sb: "sale t = Some (a, b)" by (cases "sale t") auto
    from Cons.IH [OF c(4) [OF False] Cons.prems(2)] rn c(2) sb show ?thesis
      by (simp add: runLoop.simps [of "cfg\<lparr>run := n\<rparr>" dps r h e] runBody_run_update)
  qed
qed

lemma checkInPeriod_more_runs:
  assumes "run cfg \<le> n" and "checkInPeriod cfg dps = Inr sim" and "result sim \<noteq> success"
  shows "checkInPeriod (cfg\<lparr>run := n\<rparr>) dps = Inr sim"
proof -
  note i = checkInPeriod_Inr [OF assms(2)]
  obtain dp0 rest where d: "dps = dp0 # rest" using i(1) by (cases dps) auto
  from runLoop_more_runs [OF assms(1) i(3) assms(3)] i(2) show ?thesis
    by (simp add: checkInPeriod_def d)
qed

lemma resultAt_more_runs:
  assumes "run cfg \<le> n" and "i < length dps"
  shows "resultAt (cfg\<lparr>run := n\<rparr>) dps i = Inr success \<Longrightarrow> resultAt cfg dps i = Inr success"
    and "resultAt cfg dps i = Inr failed \<Longrightarrow> resultAt (cfg\<lparr>run := n\<rparr>) dps i = Inr failed"
    and "resultAt cfg dps i = Inr na \<Longrightarrow> resultAt (cfg\<lparr>run := n\<rparr>) dps i = Inr na"
proof -
  from resultAt_Inr [OF assms(2), of cfg] obtain sim where
    sim: "checkInPeriod cfg (drop i dps) = Inr sim" and r: "resultAt cfg dps i = Inr (result sim)"
    by blast
  have same: "resultAt (cfg\<lparr>run := n\<rparr>) dps i = Inr (result sim)" if "result sim \<noteq> success"
    using checkInPeriod_more_runs [OF assms(1) sim that] by (simp add: resultAt_def)
  show "resultAt cfg dps i = Inr success" if "resultAt (cfg\<lparr>run := n\<rparr>) dps i = Inr success"
  proof (rule ccontr)
    assume "resultAt cfg dps i \<noteq> Inr success"
    with r have "result sim \<noteq> success" by simp
    from same [OF this] this that show False by simp
  qed
  show "resultAt (cfg\<lparr>run := n\<rparr>) dps i = Inr failed" if "resultAt cfg dps i = Inr failed"
    using same r that by simp
  show "resultAt (cfg\<lparr>run := n\<rparr>) dps i = Inr na" if "resultAt cfg dps i = Inr na"
    using same r that by simp
qed

lemma filter_length_mono:
  "(\<And>x. x \<in> set xs \<Longrightarrow> P x \<Longrightarrow> Q x) \<Longrightarrow> length (filter P xs) \<le> length (filter Q xs)"
  by (induction xs) auto

lemma rate_mono:
  fixes s f s' f' :: nat
  assumes "s' \<le> s" and "f \<le> f'" and "0 < s' + f'" and "0 < s + f"
  shows "real s' / real (s' + f') \<le> real s / real (s + f)"
proof -
  define D where "D = real (s + f)"
  define D' where "D' = real (s' + f')"
  have D: "0 < D" and D': "0 < D'"
    using assms(3,4) unfolding D_def D'_def by (simp_all only: of_nat_0_less_iff)
  have "s' * f \<le> s * f'" using assms(1,2) by (rule mult_le_mono)
  then have "s' * (s + f) \<le> s * (s' + f')" by (simp add: algebra_simps)
  then have "real (s' * (s + f)) \<le> real (s * (s' + f'))" by (simp only: of_nat_le_iff)
  then have le: "real s' * D \<le> real s * D'" unfolding D_def D'_def by (simp only: of_nat_mult)
  have "real s' / D' = (real s' * D) / (D' * D)" using D by simp
  also have "\<dots> \<le> (real s * D') / (D' * D)"
    using le D D' by (intro divide_right_mono) simp_all
  also have "\<dots> = real s / D" using D' by simp
  finally show ?thesis unfolding D_def D'_def .
qed

lemma tally_mono:
  assumes t: "checkStrategy cfg dps = Inr t" and t': "checkStrategy cfg' dps = Inr t'"
    and s: "\<And>i. i < length dps \<Longrightarrow> resultAt cfg' dps i = Inr success \<Longrightarrow> resultAt cfg dps i = Inr success"
    and f: "\<And>i. i < length dps \<Longrightarrow> resultAt cfg dps i = Inr failed \<Longrightarrow> resultAt cfg' dps i = Inr failed"
    and n: "\<And>i. i < length dps \<Longrightarrow> resultAt cfg dps i = Inr na \<Longrightarrow> resultAt cfg' dps i = Inr na"
  shows "successCount t' \<le> successCount t"
    and "0 < successCount t' + failedCount t' \<Longrightarrow> successfulRate t' \<le> successfulRate t"
proof -
  from checkStrategy_counts [of cfg dps] t
  have c: "successCount t = length (filter (\<lambda>i. resultAt cfg dps i = Inr success) [0..<length dps])"
    "failedCount t = length (filter (\<lambda>i. resultAt cfg dps i = Inr failed) [0..<length dps])"
    "naCount t = length (filter (\<lambda>i. resultAt cfg dps i = Inr na) [0..<length dps])"
    by simp_all
  from checkStrategy_counts [of cfg' dps] t'
  have c': "successCount t' = length (filter (\<lambda>i. resultAt cfg' dps i = Inr success) [0..<length dps])"
    "failedCount t' = length (filter (\<lambda>i. resultAt cfg' dps i = Inr failed) [0..<length dps])"
    "naCount t' = length (filter (\<lambda>i. resultAt cfg' dps i = Inr na) [0..<length dps])"
    by simp_all
  show sle: "successCount t' \<le> successCount t"
    unfolding c c' by (rule filter_length_mono) (simp add: s)
  have fle: "failedCount t \<le> failedCount t'"
    unfolding c c' by (rule filter_length_mono) (simp add: f)
  have nle: "naCount t \<le> naCount t'"
    unfolding c c' by (rule filter_length_mono) (simp add: n)
  show "successfulRate t' \<le> successfulRate t" if pos: "0 < successCount t' + failedCount t'"
  proof -
    from checkStrategy_sum [OF t] checkStrategy_sum [OF t'] nle pos
    have "0 < successCount t + failedCount t" by linarith
    from rate_mono [OF sle fle pos this] show ?thesis by (simp add: successfulRate_def)
  qed
qed

lemma tally_mono_all:
  assumes t: "checkStrategy cfg dps = Inr t" and t': "checkStrategy cfg' dps = Inr t'"
    and s: "\<forall>i < length dps. resultAt cfg' dps i = Inr success \<longrightarrow> resultAt cfg dps i = Inr success"
    and f: "\<forall>i < length dps. resultAt cfg dps i = Inr failed \<longrightarrow> resultAt cfg' dps i = Inr failed"
    and n: "\<forall>i < length dps. resultAt cfg dps i = Inr na \<longrightarrow> resultAt cfg' dps i = Inr na"
  shows "successCount t' \<le> successCount t \<and>
         (0 < successCount t' + failedCount t' \<longrightarrow> successfulRate t' \<le> successfulRate t)"
proof (intro conjI impI)
  note s' = s [rule_format] and f' = f [rule_format] and n' = n [rule_format]
  show "successCount t' \<le> successCount t"
    by (rule tally_mono(1) [OF t t']) (rule s' f' n'; assumption)+
  assume pos: "0 < successCount t' + failedCount t'"
  show "successfulRate t' \<le> successfulRate t"
    by (rule tally_mono(2) [OF t t']) ((rule s' f' n'; assumption) | rule pos)+
qed

subsection \<open>The scenarios, evaluated\<close>

lemma scenario_run:
  "checkInPeriod scenarioConfig scenarioSeries =
     Inr \<lparr>result = success, initialShares = 1,
          runs = [\<lparr>runNo = 0, startDay = time_Date 2000 1 1, endDay = time_Date 2001 1 1,
                   startIndex = 0, endIndex = 1, targetCapital = 100, costOfLiving = 0,
                   heldBefore = 1, sale = Some (0, 0), heldAfter = 1\<rparr>]\<rparr>"
  by code_simp

lemma scenario_na_run:
  "checkInPeriod (scenarioConfig\<lparr>yearPerRun := 20\<rparr>) scenarioSeries =
     Inr \<lparr>result = na, initialShares = 1, runs = []\<rparr>"
  by code_simp

lemma gap_run:
  "checkInPeriod gapConfig gapSeries =
     Inr \<lparr>result = failed, initialShares = 100,
          runs = [\<lparr>runNo = 0, startDay = time_Date 2000 1 1, endDay = time_Date 2001 1 1,
                   startIndex = 0, endIndex = 1, targetCapital = 100, costOfLiving = 0,
                   heldBefore = 100, sale = Some (0, 0), heldAfter = 100\<rparr>,
                  \<lparr>runNo = 1, startDay = time_Date 2001 1 1, endDay = time_Date 2002 1 1,
                   startIndex = 1, endIndex = 1, targetCapital = 100, costOfLiving = 0,
                   heldBefore = 100, sale = None, heldAfter = 100\<rparr>]\<rparr>"
  by code_simp

lemma greedy_run:
  "checkInPeriod greedyConfig greedySeries =
     Inr \<lparr>result = failed, initialShares = 128,
          runs = [\<lparr>runNo = 0, startDay = time_Date 2000 1 1, endDay = time_Date 2001 1 1,
                   startIndex = 0, endIndex = 3, targetCapital = 384, costOfLiving = 128,
                   heldBefore = 128, sale = Some (1, 42), heldAfter = 86\<rparr>,
                  \<lparr>runNo = 1, startDay = time_Date 2001 1 1, endDay = time_Date 2002 1 1,
                   startIndex = 3, endIndex = 4, targetCapital = 768, costOfLiving = 256,
                   heldBefore = 86, sale = None, heldAfter = 86\<rparr>]\<rparr>"
  by code_simp

lemma greedy_run_65:
  "checkInPeriod (greedyConfig\<lparr>costPerYear := 65\<rparr>) greedySeries =
     Inr \<lparr>result = success, initialShares = 128,
          runs = [\<lparr>runNo = 0, startDay = time_Date 2000 1 1, endDay = time_Date 2001 1 1,
                   startIndex = 0, endIndex = 3, targetCapital = 386, costOfLiving = 130,
                   heldBefore = 128, sale = Some (2, 0), heldAfter = 128\<rparr>,
                  \<lparr>runNo = 1, startDay = time_Date 2001 1 1, endDay = time_Date 2002 1 1,
                   startIndex = 3, endIndex = 4, targetCapital = 772, costOfLiving = 260,
                   heldBefore = 128, sale = Some (3, 32), heldAfter = 96\<rparr>]\<rparr>"
  by code_simp

lemma greedy_tally:
  "checkStrategy greedyConfig greedySeries =
     Inr \<lparr>successCount = 0, failedCount = 3, naCount = 2\<rparr>"
  by code_simp

lemma greedy_tally_65:
  "checkStrategy (greedyConfig\<lparr>costPerYear := 65\<rparr>) greedySeries =
     Inr \<lparr>successCount = 1, failedCount = 2, naCount = 2\<rparr>"
  by code_simp

lemma greedy_tally_1:
  "checkStrategy (greedyConfig\<lparr>run := 1\<rparr>) greedySeries =
     Inr \<lparr>successCount = 2, failedCount = 2, naCount = 1\<rparr>"
  by code_simp

lemma overflow_run:
  "checkInPeriod overflowConfig overflowSeries =
     Inr \<lparr>result = na, initialShares = - 9223372036854775808, runs = []\<rparr>"
  by code_simp

section \<open>The claims\<close>

text \<open>
  Each claim is stated on \<open>findClosestDay\<close>, \<open>checkInPeriod\<close>, \<open>checkStrategy\<close> or
  \<open>main\<close> as defined above, and is followed, when it has hypotheses, by an instance
  on one of the scenarios. For C5 and C9 the theorem is the simulation of the input on
  which the program departs from the claim.
\<close>

text \<open>
  Claim C1. The \<open>r\<close>-th run a simulation processes (counted from 0) is run number \<open>r\<close>
  of the loop, and its target capital is
  \<open>capital * inflationRate ^ n + costPerYear * yearPerRun * inflationRate ^ n\<close> with the
  compounding exponent \<open>n = (r + 1) * yearPerRun\<close>: the inflated capital plus the cost
  of living of the run. The number of years per run is not negative, so that the
  exponent is a natural number.
\<close>

theorem targetCapital_formula:
  assumes "checkInPeriod cfg dps = Inr sim"
    and "r < length (runs sim)"
    and "0 \<le> yearPerRun cfg"
  shows "runNo (runs sim ! r) = int r \<and>
         targetCapital (runs sim ! r) =
           real_of_int (capital cfg) * inflationRate cfg ^ ((r + 1) * nat (yearPerRun cfg)) +
           real_of_int (costPerYear cfg) * real_of_int (yearPerRun cfg) *
             inflationRate cfg ^ ((r + 1) * nat (yearPerRun cfg))"
proof -
  note loop = checkInPeriod_Inr(3) [OF assms(1)]
  note body = checkInPeriod_run(2) [OF assms(1,2)]
  note b = runBody_Some [OF body]
  have n: "0 \<le> (int r + 1) * yearPerRun cfg" using assms(3) by simp
  have "nat ((int r + 1) * yearPerRun cfg) = (r + 1) * nat (yearPerRun cfg)"
    using assms(3) by (simp add: nat_mult_distrib nat_add_distrib)
  then have "math_Pow (inflationRate cfg) ((int r + 1) * yearPerRun cfg) =
      inflationRate cfg ^ ((r + 1) * nat (yearPerRun cfg))"
    using math_Pow_nat [OF n] by simp
  with b(1,6,7) show ?thesis by simp
qed

theorem targetCapital_formula_witness:
  "runNo (runs (projr (checkInPeriod greedyConfig greedySeries)) ! 1) = 1 \<and>
   targetCapital (runs (projr (checkInPeriod greedyConfig greedySeries)) ! 1) =
     128 * 2 ^ ((1 + 1) * 1) + 64 * 1 * 2 ^ ((1 + 1) * 1)"
proof -
  let ?S = "\<lparr>result = failed, initialShares = 128,
          runs = [\<lparr>runNo = 0, startDay = time_Date 2000 1 1, endDay = time_Date 2001 1 1,
                   startIndex = 0, endIndex = 3, targetCapital = 384, costOfLiving = 128,
                   heldBefore = 128, sale = Some (1, 42), heldAfter = 86\<rparr>,
                  \<lparr>runNo = 1, startDay = time_Date 2001 1 1, endDay = time_Date 2002 1 1,
                   startIndex = 3, endIndex = 4, targetCapital = 768, costOfLiving = 256,
                   heldBefore = 86, sale = None, heldAfter = 86\<rparr>]\<rparr>"
  have ev: "checkInPeriod greedyConfig greedySeries = Inr ?S" by (rule greedy_run)
  have len: "1 < length (runs ?S)" by simp
  have y: "0 \<le> yearPerRun greedyConfig" by (simp add: greedyConfig_def)
  have c: "capital greedyConfig = 128" "costPerYear greedyConfig = 64"
    "yearPerRun greedyConfig = 1" "inflationRate greedyConfig = 2"
    by (simp_all add: greedyConfig_def)
  from targetCapital_formula [OF ev len y] show ?thesis
    unfolding c by (simp add: greedy_run)
qed

text \<open>
  Claim C2. On a non-empty series \<open>checkInPeriod\<close> does not panic and returns one of
  \<open>success\<close>, \<open>failed\<close> and \<open>na\<close>. It returns \<open>na\<close> only when, for a run \<open>k\<close> below
  the number of runs, the start day or the end day of run \<open>k\<close> is after the date of the
  last sample, which is when \<open>findClosestDay\<close> does not find it.
\<close>

theorem checkInPeriod_outcome:
  assumes "dps \<noteq> []"
  shows "\<exists>sim. checkInPeriod cfg dps = Inr sim \<and>
           (result sim = success \<or> result sim = failed \<or> result sim = na) \<and>
           (result sim = na \<longrightarrow>
              (\<exists>k. int k < run cfg \<and>
                 (Date (last dps) < periodDay cfg (Date (hd dps)) k \<or>
                  Date (last dps) < periodDay cfg (Date (hd dps)) (Suc k))))"
proof -
  obtain sim where sim: "checkInPeriod cfg dps = Inr sim"
    using checkInPeriod_no_panic [OF assms] by blast
  note loop = checkInPeriod_Inr(3) [OF sim]
  have one: "result sim = success \<or> result sim = failed \<or> result sim = na"
    by (cases "result sim") simp_all
  have "\<exists>k. int k < run cfg \<and>
          (Date (last dps) < periodDay cfg (Date (hd dps)) k \<or>
           Date (last dps) < periodDay cfg (Date (hd dps)) (Suc k))"
    if "result sim = na"
  proof -
    define k where "k = length (runs sim)"
    from loop that have "runLoop cfg dps 0 (initialShares sim) (Date (hd dps)) = Inr (na, runs sim)"
      by simp
    from runLoop_na [OF this]
    have k: "int k < run cfg"
      and nf: "\<not> snd (findClosestDay (periodDay cfg (Date (hd dps)) k) dps) \<or>
               \<not> snd (findClosestDay (periodDay cfg (Date (hd dps)) (Suc k)) dps)"
      by (simp_all add: k_def)
    have late: "Date (last dps) < d" if miss: "\<not> snd (findClosestDay d dps)" for d
    proof -
      obtain i where "findClosestDay d dps = (i, False)"
        using miss by (cases "findClosestDay d dps") auto
      from findClosestDay_not_found [OF this assms] show ?thesis by simp
    qed
    from nf late have "Date (last dps) < periodDay cfg (Date (hd dps)) k \<or>
        Date (last dps) < periodDay cfg (Date (hd dps)) (Suc k)"
      by blast
    with k show ?thesis by blast
  qed
  with sim one show ?thesis by blast
qed

theorem checkInPeriod_outcome_witness:
  "result (projr (checkInPeriod (scenarioConfig\<lparr>yearPerRun := 20\<rparr>) scenarioSeries)) = na \<and>
   (\<exists>k. int k < run (scenarioConfig\<lparr>yearPerRun := 20\<rparr>) \<and>
      (Date (last scenarioSeries) <
         periodDay (scenarioConfig\<lparr>yearPerRun := 20\<rparr>) (Date (hd scenarioSeries)) k \<or>
       Date (last scenarioSeries) <
         periodDay (scenarioConfig\<lparr>yearPerRun := 20\<rparr>) (Date (hd scenarioSeries)) (Suc k)))"
proof -
  have ne: "scenarioSeries \<noteq> []" by (simp add: scenarioSeries_def)
  from checkInPeriod_outcome [OF ne, of "scenarioConfig\<lparr>yearPerRun := 20\<rparr>"]
  show ?thesis by (simp add: scenario_na_run)
qed

text \<open>
  Claim C3. On a non-empty series sorted ascending by date, \<open>findClosestDay\<close> finds
  every target date that is not after the last sample and returns the smallest index
  whose date is on or after the target: the date at the index is on or after the
  target and every earlier date is before it, so duplicate dates resolve to the lowest
  index. A target on or before the first sample yields index 0, and a target after the
  last sample is reported as not found.
\<close>

theorem findClosestDay_sorted:
  assumes "sorted (map Date dps)" and "dps \<noteq> []"
  shows "(day \<le> Date (last dps) \<longrightarrow>
           (\<exists>i < length dps. findClosestDay day dps = (int i, True) \<and>
              day \<le> Date (dps ! i) \<and> (\<forall>k < i. Date (dps ! k) < day))) \<and>
         (day \<le> Date (hd dps) \<longrightarrow> findClosestDay day dps = (0, True)) \<and>
         (Date (last dps) < day \<longrightarrow> findClosestDay day dps = (- 1, False))"
proof -
  define r where "r = search_loop (\<lambda>i. day \<le> Date (dps ! i)) 0 (length dps)"
  note aux = findClosestDay_least [OF assms(1), where day = day, folded r_def]
  have pos: "0 < length dps" using assms(2) by simp
  have lastn: "last dps = dps ! (length dps - 1)" using assms(2) by (simp add: last_conv_nth)
  have hd0: "hd dps = dps ! 0" using assms(2) by (simp add: hd_conv_nth)
  have fcd: "findClosestDay day dps = (if r = length dps then (- 1, False) else (int r, True))"
    unfolding findClosestDay_eq r_def by simp
  have A: "\<exists>i < length dps. findClosestDay day dps = (int i, True) \<and>
              day \<le> Date (dps ! i) \<and> (\<forall>k < i. Date (dps ! k) < day)"
    if le: "day \<le> Date (last dps)"
  proof -
    have "\<not> length dps - 1 < r" using aux(2) [of "length dps - 1"] le lastn by auto
    then have lt: "r < length dps" using pos by linarith
    have "day \<le> Date (dps ! r)" using aux(3) [of r] lt by simp
    moreover have "\<forall>k < r. Date (dps ! k) < day" using aux(2) by simp
    moreover have "findClosestDay day dps = (int r, True)" using lt fcd by simp
    ultimately show ?thesis using lt by blast
  qed
  have B: "findClosestDay day dps = (0, True)" if le: "day \<le> Date (hd dps)"
  proof -
    have "\<not> 0 < r" using aux(2) [of 0] le hd0 by auto
    then have "r = 0" by simp
    moreover have "0 \<noteq> length dps" using pos by linarith
    ultimately show ?thesis using fcd by simp
  qed
  have C: "findClosestDay day dps = (- 1, False)" if lt: "Date (last dps) < day"
  proof -
    have "\<not> r \<le> length dps - 1" using aux(3) [of "length dps - 1"] lt lastn pos by auto
    then have "r = length dps" using aux(1) by linarith
    then show ?thesis using fcd by simp
  qed
  show ?thesis using A B C by blast
qed

theorem findClosestDay_sorted_witness:
  "findClosestDay 6 [\<lparr>Date = 5, HighPrice = 1\<rparr>, \<lparr>Date = 7, HighPrice = 2\<rparr>, \<lparr>Date = 7, HighPrice = 3\<rparr>] = (1, True) \<and>
   findClosestDay 3 [\<lparr>Date = 5, HighPrice = 1\<rparr>, \<lparr>Date = 7, HighPrice = 2\<rparr>, \<lparr>Date = 7, HighPrice = 3\<rparr>] = (0, True) \<and>
   findClosestDay 9 [\<lparr>Date = 5, HighPrice = 1\<rparr>, \<lparr>Date = 7, HighPrice = 2\<rparr>, \<lparr>Date = 7, HighPrice = 3\<rparr>] = (- 1, False)"
proof -
  let ?S = "[\<lparr>Date = 5, HighPrice = 1\<rparr>, \<lparr>Date = 7, HighPrice = 2\<rparr>, \<lparr>Date = 7, HighPrice = 3\<rparr>]"
  have s: "sorted (map Date ?S)" and ne: "?S \<noteq> []" by simp_all
  from findClosestDay_sorted [OF s ne, of 6]
  obtain i where i: "i < 3" "findClosestDay 6 ?S = (int i, True)" "6 \<le> Date (?S ! i)"
    "\<forall>k<i. Date (?S ! k) < 6"
    by auto
  have "i \<noteq> 0"
  proof
    assume "i = 0"
    with i(3) show False by simp
  qed
  moreover have "i < 2"
  proof (rule ccontr)
    assume "\<not> i < 2"
    with i(1) have "i = 2" by simp
    with i(4) have "\<forall>k<2. Date (?S ! k) < 6" by simp
    then have "Date (?S ! 1) < 6" by (rule allE [where x = 1]) simp
    then show False by simp
  qed
  ultimately have "i = 1" by simp
  with i(2) have a: "findClosestDay 6 ?S = (1, True)" by simp
  have b: "findClosestDay 3 ?S = (0, True)"
    using findClosestDay_sorted [OF s ne, of 3] by simp
  have c: "findClosestDay 9 ?S = (- 1, False)"
    using findClosestDay_sorted [OF s ne, of 9] by simp
  show ?thesis using a b c by simp
qed

text \<open>
  Claim C4. With more runs and everything else fixed, the first runs of every simulation
  are replayed as they were: no simulation that was not a success becomes one, so the
  number of successes does not grow, and neither does the rate
  \<open>successCount / (successCount + failedCount)\<close> when it is defined. A higher cost of
  living can raise both: on \<open>greedySeries\<close> the sale of the first run comes later, at a
  much higher price, and leaves more shares for the second run, which turns a failure
  into a success.
\<close>

theorem success_rate_monotone:
  assumes "checkStrategy cfg dps = Inr t" and "checkStrategy (cfg\<lparr>run := n\<rparr>) dps = Inr t'"
    and "run cfg \<le> n"
  shows "successCount t' \<le> successCount t \<and>
         (0 < successCount t' + failedCount t' \<longrightarrow> successfulRate t' \<le> successfulRate t)"
proof -
  note m = resultAt_more_runs [OF assms(3), of _ dps]
  show ?thesis
    by (rule tally_mono_all [OF assms(1,2)]; intro allI impI; rule m; assumption)
qed

theorem success_rate_monotone_witness:
  "successCount \<lparr>successCount = 0, failedCount = 3, naCount = 2\<rparr>
     \<le> successCount \<lparr>successCount = 2, failedCount = 2, naCount = 1\<rparr> \<and>
   successfulRate \<lparr>successCount = 0, failedCount = 3, naCount = 2\<rparr>
     \<le> successfulRate \<lparr>successCount = 2, failedCount = 2, naCount = 1\<rparr>"
proof -
  have c: "greedyConfig\<lparr>run := 1\<rparr>\<lparr>run := 2\<rparr> = greedyConfig"
    by (simp add: greedyConfig_def)
  have t': "checkStrategy (greedyConfig\<lparr>run := 1\<rparr>\<lparr>run := 2\<rparr>) greedySeries =
      Inr \<lparr>successCount = 0, failedCount = 3, naCount = 2\<rparr>"
    unfolding c by (rule greedy_tally)
  have r: "run (greedyConfig\<lparr>run := 1\<rparr>) \<le> 2" by simp
  from success_rate_monotone [OF greedy_tally_1 t' r] show ?thesis by simp
qed

theorem cost_of_living_counterexample:
  "costPerYear greedyConfig < 65 \<and>
   checkStrategy greedyConfig greedySeries =
     Inr \<lparr>successCount = 0, failedCount = 3, naCount = 2\<rparr> \<and>
   checkStrategy (greedyConfig\<lparr>costPerYear := 65\<rparr>) greedySeries =
     Inr \<lparr>successCount = 1, failedCount = 2, naCount = 2\<rparr> \<and>
   successfulRate \<lparr>successCount = 0, failedCount = 3, naCount = 2\<rparr>
     < successfulRate \<lparr>successCount = 1, failedCount = 2, naCount = 2\<rparr>"
proof -
  have "costPerYear greedyConfig < 65" by (simp add: greedyConfig_def)
  moreover have "successfulRate \<lparr>successCount = 0, failedCount = 3, naCount = 2\<rparr>
      < successfulRate \<lparr>successCount = 1, failedCount = 2, naCount = 2\<rparr>"
    by (simp add: successfulRate_def)
  ultimately show ?thesis using greedy_tally greedy_tally_65 by simp
qed

text \<open>
  Claim C5. The shares held after the initialisation are the quotient of the capital and
  the first price, truncated. With a capital of \<open>2 ^ 62\<close> and a price of 0.5 the
  quotient is \<open>2 ^ 63\<close>, which is its own floor and which \<open>int64\<close> cannot hold: the
  conversion at the initialisation yields \<open>- 2 ^ 63\<close> shares.
\<close>

theorem overflow_initial_shares:
  "\<lfloor>real_of_int (capital overflowConfig) / HighPrice (hd overflowSeries)\<rfloor> = 2 ^ 63 \<and>
   initialShares (projr (checkInPeriod overflowConfig overflowSeries)) = - (2 ^ 63)"
proof -
  have "\<lfloor>real_of_int (capital overflowConfig) / HighPrice (hd overflowSeries)\<rfloor> = 2 ^ 63"
    by (simp add: overflowConfig_def overflowSeries_def)
  moreover have "initialShares (projr (checkInPeriod overflowConfig overflowSeries)) = - (2 ^ 63)"
    by (simp add: overflow_run)
  ultimately show ?thesis by simp
qed

text \<open>
  Claim C6. \<open>checkStrategy\<close> does not panic, and each of its three counters is the number
  of starting indices whose simulation returned the counter's result: every starting
  index is counted once, and the counters add up to the length of the series.
\<close>

theorem tally_total:
  "\<exists>t. checkStrategy cfg dps = Inr t \<and>
     successCount t = length (filter (\<lambda>i. resultAt cfg dps i = Inr success) [0..<length dps]) \<and>
     failedCount t = length (filter (\<lambda>i. resultAt cfg dps i = Inr failed) [0..<length dps]) \<and>
     naCount t = length (filter (\<lambda>i. resultAt cfg dps i = Inr na) [0..<length dps]) \<and>
     successCount t + failedCount t + naCount t = length dps"
  using checkStrategy_counts [of cfg dps] checkStrategy_sum [of cfg dps] by blast

text \<open>
  Claim C7. In the scenario of the specification the simulation that starts at index 0
  buys 1 share, finds the end of the period, 2001-01-01, at index 1 and computes the
  target capital 100. The window of the run is the index 0 alone, and the target is met
  there, at the price 100: no share is sold and the result is \<open>success\<close>. Index 1 is
  not in the window: the sale is not at index 1.
\<close>

theorem scenario_result:
  "checkInPeriod scenarioConfig scenarioSeries =
     Inr \<lparr>result = success, initialShares = 1,
          runs = [\<lparr>runNo = 0, startDay = time_Date 2000 1 1, endDay = time_Date 2001 1 1,
                   startIndex = 0, endIndex = 1, targetCapital = 100, costOfLiving = 0,
                   heldBefore = 1, sale = Some (0, 0), heldAfter = 1\<rparr>]\<rparr> \<and>
   findClosestDay (time_Date 2001 1 1) scenarioSeries = (1, True) \<and>
   (100 :: real) \<le> real_of_int 1 * HighPrice (scenarioSeries ! 0)"
  by code_simp

theorem scenario_sale_counterexample:
  "map (map_option fst \<circ> sale) (runs (projr (checkInPeriod scenarioConfig scenarioSeries)))
     \<noteq> [Some 1]"
  by (simp add: scenario_run)

text \<open>
  Claim C8. \<open>main\<close> panics with "no input data" exactly when the series is empty, and
  then it returns no tally: the test comes before the call of \<open>checkStrategy\<close>. On a
  series that is not empty it returns the tally of \<open>checkStrategy\<close>, which has counted
  every starting index.
\<close>

theorem main_input_error:
  "(main cfg dps = Inl NoInputData \<longleftrightarrow> dps = []) \<and>
   (dps \<noteq> [] \<longrightarrow> (\<exists>t. main cfg dps = Inr t \<and> checkStrategy cfg dps = Inr t \<and>
        successCount t + failedCount t + naCount t = length dps))"
proof -
  from checkStrategy_counts [of cfg dps] obtain t where t: "checkStrategy cfg dps = Inr t"
    by blast
  note sum = checkStrategy_sum [OF t]
  have a: "main cfg dps = Inl NoInputData \<longleftrightarrow> dps = []"
    using t by (simp add: main_def)
  have b: "\<exists>t. main cfg dps = Inr t \<and> checkStrategy cfg dps = Inr t \<and>
        successCount t + failedCount t + naCount t = length dps" if "dps \<noteq> []"
    using that t sum by (simp add: main_def)
  from a b show ?thesis by blast
qed

theorem main_input_error_witness:
  "main scenarioConfig [] = Inl NoInputData \<and>
   (\<exists>t. main scenarioConfig scenarioSeries = Inr t \<and>
        checkStrategy scenarioConfig scenarioSeries = Inr t \<and>
        successCount t + failedCount t + naCount t = length scenarioSeries)"
proof -
  have ne: "scenarioSeries \<noteq> []" by (simp add: scenarioSeries_def)
  from main_input_error [of scenarioConfig "[]"] main_input_error [of scenarioConfig scenarioSeries] ne
  show ?thesis by simp
qed

text \<open>
  Claim C9. With a positive capital, an inflation rate above 1, a cost of living that is
  not negative and positive prices, the shares held should never be negative. With a
  capital of \<open>2 ^ 62\<close> and a single price of 0.5 they are, right after the
  initialisation: the quotient \<open>2 ^ 63\<close> is outside the range of \<open>int64\<close>.
\<close>

theorem overflow_negative_shares:
  "0 < capital overflowConfig \<and> 1 < inflationRate overflowConfig \<and>
   0 \<le> costPerYear overflowConfig \<and>
   length overflowSeries = 1 \<and> 0 < HighPrice (overflowSeries ! 0) \<and>
   initialShares (projr (checkInPeriod overflowConfig overflowSeries)) < 0"
proof -
  have "0 < capital overflowConfig \<and> 1 < inflationRate overflowConfig \<and>
      0 \<le> costPerYear overflowConfig"
    by (simp add: overflowConfig_def)
  moreover have "length overflowSeries = 1 \<and> 0 < HighPrice (overflowSeries ! 0)"
    by (simp add: overflowSeries_def)
  moreover have "initialShares (projr (checkInPeriod overflowConfig overflowSeries)) < 0"
    by (simp add: overflow_run)
  ultimately show ?thesis by simp
qed

text \<open>
  Claim C10. When both dates of a run are found at the same index, the window of the run
  is empty: whatever the number of shares held, no day is tested, nothing is sold, the
  run is the last one of the simulation and the simulation returns \<open>failed\<close>, not \<open>na\<close>.
\<close>

theorem empty_window_failed:
  assumes "checkInPeriod cfg dps = Inr sim"
    and "t \<in> set (runs sim)"
    and "startIndex t = endIndex t"
  shows "findClosestDay (startDay t) dps = (startIndex t, True) \<and>
         findClosestDay (endDay t) dps = (endIndex t, True) \<and>
         sale t = None \<and> t = last (runs sim) \<and> result sim = failed"
proof -
  note loop = checkInPeriod_Inr(3) [OF assms(1)]
  from assms(2) obtain k where k: "k < length (runs sim)" "runs sim ! k = t"
    by (auto simp: in_set_conv_nth)
  have body: "runBody cfg dps (int k) (heldBefore t) (periodDay cfg (Date (hd dps)) k) = Inr (Some t)"
    using checkInPeriod_run(2) [OF assms(1) k(1)] unfolding k(2) .
  note b = runBody_Some [OF body]
  have s: "findClosestDay (startDay t) dps = (startIndex t, True)" using b(2,4) by simp
  have e: "findClosestDay (endDay t) dps = (endIndex t, True)" using b(3,5) by simp
  have "scanWindow dps (heldBefore t) (targetCapital t) (startIndex t) (endIndex t) = Inr None"
    using assms(3) by (simp add: scanWindow_empty)
  with b(9) have none: "sale t = None" by simp
  from runLoop_sale_None [OF loop assms(2) none] s e none show ?thesis by simp
qed

theorem empty_window_failed_witness:
  "startIndex (runs (projr (checkInPeriod gapConfig gapSeries)) ! 1) =
     endIndex (runs (projr (checkInPeriod gapConfig gapSeries)) ! 1) \<and>
   heldBefore (runs (projr (checkInPeriod gapConfig gapSeries)) ! 1) = 100 \<and>
   result (projr (checkInPeriod gapConfig gapSeries)) = failed"
proof -
  let ?S = "\<lparr>result = failed, initialShares = 100,
          runs = [\<lparr>runNo = 0, startDay = time_Date 2000 1 1, endDay = time_Date 2001 1 1,
                   startIndex = 0, endIndex = 1, targetCapital = 100, costOfLiving = 0,
                   heldBefore = 100, sale = Some (0, 0), heldAfter = 100\<rparr>,
                  \<lparr>runNo = 1, startDay = time_Date 2001 1 1, endDay = time_Date 2002 1 1,
                   startIndex = 1, endIndex = 1, targetCapital = 100, costOfLiving = 0,
                   heldBefore = 100, sale = None, heldAfter = 100\<rparr>]\<rparr>"
  have ev: "checkInPeriod gapConfig gapSeries = Inr ?S" by (rule gap_run)
  have m: "runs ?S ! 1 \<in> set (runs ?S)" by simp
  have e: "startIndex (runs ?S ! 1) = endIndex (runs ?S ! 1)" by simp
  have "result ?S = failed" using empty_window_failed [OF ev m e] by blast
  then show ?thesis by (simp add: gap_run)
qed

end
